theory Spec2Isabelle
  imports Main "HOL-Library.Sublist"
begin

section \<open>The configuration tree\<close>

text \<open>
  The driver of \<^verbatim>\<open>src/main.py\<close> receives a nested configuration (an OmegaConf
  \<^verbatim>\<open>DictConfig\<close>): string keys, and values that are strings, other scalars or nested
  mappings. The driver inspects strings only (the step selection, the two environment
  values); every other scalar is passed through untouched, so one constructor \<open>Num\<close>
  stands for them. A mapping is an association list, read with \<open>map_of\<close>.
\<close>

datatype cfg = Str string | Num int | Dict "(string \<times> cfg) list"

datatype error =
    KeyError string
  | TypeError
  | AttributeError
  | ExecutionException string

text \<open>\<^verbatim>\<open>config[k]\<close>: a missing key raises, and so does indexing a scalar.\<close>

fun getitem :: "cfg \<Rightarrow> string \<Rightarrow> error + cfg" where
  "getitem (Dict kvs) k = (case map_of kvs k of None \<Rightarrow> Inl (KeyError k) | Some v \<Rightarrow> Inr v)"
| "getitem (Str s) k = Inl TypeError"
| "getitem (Num n) k = Inl TypeError"

text \<open>\<^verbatim>\<open>config[k1][k2]...\<close>, left to right.\<close>

fun getpath :: "cfg \<Rightarrow> string list \<Rightarrow> error + cfg" where
  "getpath c [] = Inr c"
| "getpath c (k # ks) = (case getitem c k of Inl e \<Rightarrow> Inl e | Inr v \<Rightarrow> getpath v ks)"

section \<open>Step selection\<close>

text \<open>The registry \<^verbatim>\<open>_steps\<close> of lines 10 to 20; its sixth entry is commented out.\<close>

definition steps_registry :: "string list" where
  "steps_registry = [''download'', ''basic_cleaning'', ''data_check'', ''data_split'',
             ''train_random_forest'']"

text \<open>
  Python's \<^verbatim>\<open>s.split(sep)\<close> for a one-character separator: every occurrence of the
  separator ends a token, nothing is stripped, and the empty string gives one empty token.
\<close>

fun str_split :: "char \<Rightarrow> string \<Rightarrow> string list" where
  "str_split sep [] = [[]]"
| "str_split sep (c # cs) =
     (if c = sep then [] # str_split sep cs
      else (case str_split sep cs of [] \<Rightarrow> [[c]] | t # ts \<Rightarrow> (c # t) # ts))"

text \<open>
  Line 33: \<^verbatim>\<open>steps_par.split(",") if steps_par != "all" else _steps\<close>. A value that is
  not a string is different from \<^verbatim>\<open>"all"\<close> and has no usable \<^verbatim>\<open>split\<close>.
\<close>

definition active_steps :: "cfg \<Rightarrow> error + string list" where
  "active_steps steps_par =
     (if steps_par \<noteq> Str ''all''
      then (case steps_par of Str s \<Rightarrow> Inr (str_split CHR '','' s) | _ \<Rightarrow> Inl AttributeError)
      else Inr steps_registry)"

section \<open>Effects\<close>

text \<open>
  An external run is described by what \<^verbatim>\<open>mlflow.run\<close> receives: the unit's location,
  the entry point, the optional version and the parameter dictionary. A remote location
  is the f-string \<^verbatim>\<open>f"{repo}/name"\<close>, kept as the formatted value and the literal
  suffix; a local one is a path.
\<close>

datatype uri = Fmt cfg string | Plain string

record invocation =
  uri :: uri
  entry_point :: string
  version :: "string option"
  parameters :: "(string \<times> cfg) list"

datatype contents = Incomplete | Json "(string \<times> cfg) list"

text \<open>
  What the driver does to the world, in order. \<open>Run n iv\<close> is the call of
  \<^verbatim>\<open>mlflow.run\<close> made under the guard \<^verbatim>\<open>if n in active_steps\<close>.
\<close>

datatype event =
    SetEnv string string
  | MkDir string
  | OpenW string
  | Dump string "(string \<times> cfg) list"
  | Run string invocation
  | RmTree string

fun is_Run :: "event \<Rightarrow> bool" where
  "is_Run (Run n iv) = True"
| "is_Run _ = False"

fun is_SetEnv :: "event \<Rightarrow> bool" where
  "is_SetEnv (SetEnv k v) = True"
| "is_SetEnv _ = False"

text \<open>The names of the steps invoked, in the order of their invocation.\<close>

fun invoked :: "event list \<Rightarrow> string list" where
  "invoked [] = []"
| "invoked (Run n iv # es) = n # invoked es"
| "invoked (e # es) = invoked es"

text \<open>
  What the process finds around itself: its working directory, the directory Hydra was
  started from, the name \<^verbatim>\<open>tempfile.TemporaryDirectory()\<close> creates, and the external
  runner, of which the driver sees only whether a run succeeded (\<open>False\<close>: it raised).
\<close>

record env =
  getcwd :: string
  original_cwd :: string
  mkdtemp :: string
  mlflow_run :: "invocation \<Rightarrow> bool"

text \<open>A piece of the driver: the events it produced and the exception it ended with, if any.\<close>

type_synonym outcome = "event list \<times> error option"

text \<open>Statements one after the other: the first exception ends the sequence.\<close>

fun seq_run :: "outcome list \<Rightarrow> outcome" where
  "seq_run [] = ([], None)"
| "seq_run ((evs, Some e) # bs) = (evs, Some e)"
| "seq_run ((evs, None) # bs) = (evs @ fst (seq_run bs), snd (seq_run bs))"

definition skip :: outcome where
  "skip = ([], None)"

section \<open>Paths\<close>

text \<open>\<^verbatim>\<open>os.path.join\<close> of two components, and \<^verbatim>\<open>os.path.abspath\<close> of a relative name.\<close>

definition path_join :: "string \<Rightarrow> string \<Rightarrow> string" where
  "path_join a b =
     (if b \<noteq> [] \<and> hd b = CHR ''/'' then b
      else if a = [] \<or> last a = CHR ''/'' then a @ b
      else a @ ''/'' @ b)"

definition abspath :: "env \<Rightarrow> string \<Rightarrow> string" where
  "abspath env p = path_join (getcwd env) p"

section \<open>The steps\<close>

text \<open>
  A parameter dictionary is a literal whose values are evaluated in the order written;
  the first lookup that fails raises. A value is a configuration path or a value the
  driver computed.
\<close>

datatype source = Cfg "string list" | Lit cfg

fun resolve :: "cfg \<Rightarrow> (string \<times> source) list \<Rightarrow> error + (string \<times> cfg) list" where
  "resolve config [] = Inr []"
| "resolve config ((name, src) # rest) =
     (case (case src of Cfg path \<Rightarrow> getpath config path | Lit v \<Rightarrow> Inr v) of
        Inl e \<Rightarrow> Inl e
      | Inr v \<Rightarrow> (case resolve config rest of
                    Inl e \<Rightarrow> Inl e
                  | Inr ps \<Rightarrow> Inr ((name, v) # ps)))"

text \<open>The call itself: it blocks, and a failed run raises.\<close>

definition invoke :: "env \<Rightarrow> string \<Rightarrow> invocation \<Rightarrow> outcome" where
  "invoke env name iv =
     ([Run name iv], if mlflow_run env iv then None else Some (ExecutionException name))"

text \<open>
  \<^verbatim>\<open>mlflow.run(uri, "main", version=..., parameters={...})\<close>: the location is evaluated
  first, then the parameters, then the call is made.
\<close>

definition call ::
  "env \<Rightarrow> string \<Rightarrow> error + uri \<Rightarrow> string option \<Rightarrow> error + (string \<times> cfg) list \<Rightarrow> outcome" where
  "call env name loc ver ps =
     (case loc of
        Inl e \<Rightarrow> ([], Some e)
      | Inr u \<Rightarrow> (case ps of
                   Inl e \<Rightarrow> ([], Some e)
                 | Inr p \<Rightarrow> invoke env name
                     \<lparr>uri = u, entry_point = ''main'', version = ver, parameters = p\<rparr>))"

definition remote :: "cfg \<Rightarrow> string \<Rightarrow> error + uri" where
  "remote config tail =
     (case getpath config [''main'', ''components_repository''] of
        Inl e \<Rightarrow> Inl e
      | Inr r \<Rightarrow> Inr (Fmt r tail))"

definition local_unit :: "env \<Rightarrow> string \<Rightarrow> error + uri" where
  "local_unit env name = Inr (Plain (path_join (path_join (original_cwd env) ''src'') name))"

definition download :: "env \<Rightarrow> cfg \<Rightarrow> outcome" where
  "download env config =
     call env ''download'' (remote config ''/get_data'') (Some ''main'')
       (resolve config
         [(''sample'', Cfg [''etl'', ''sample'']),
          (''artifact_name'', Cfg [''m_params'', ''download'', ''artifact_name'']),
          (''artifact_type'', Cfg [''m_params'', ''download'', ''artifact_type'']),
          (''artifact_description'', Cfg [''m_params'', ''download'', ''artifact_description''])])"

definition basic_cleaning :: "env \<Rightarrow> cfg \<Rightarrow> outcome" where
  "basic_cleaning env config =
     call env ''basic_cleaning'' (local_unit env ''basic_cleaning'') None
       (resolve config
         [(''input_artifact'', Cfg [''m_params'', ''basic_cleaning'', ''input_artifact'']),
          (''output_artifact'', Cfg [''m_params'', ''basic_cleaning'', ''output_artifact'']),
          (''output_type'', Cfg [''m_params'', ''basic_cleaning'', ''output_type'']),
          (''output_description'', Cfg [''m_params'', ''basic_cleaning'', ''output_description'']),
          (''min_price'', Cfg [''etl'', ''min_price'']),
          (''max_price'', Cfg [''etl'', ''max_price''])])"

definition data_check :: "env \<Rightarrow> cfg \<Rightarrow> outcome" where
  "data_check env config =
     call env ''data_check'' (local_unit env ''data_check'') None
       (resolve config
         [(''csv'', Cfg [''m_params'', ''data_check'', ''csv'']),
          (''ref'', Cfg [''m_params'', ''data_check'', ''ref'']),
          (''kl_threshold'', Cfg [''data_check'', ''kl_threshold'']),
          (''min_price'', Cfg [''etl'', ''min_price'']),
          (''max_price'', Cfg [''etl'', ''max_price''])])"

definition data_split :: "env \<Rightarrow> cfg \<Rightarrow> outcome" where
  "data_split env config =
     call env ''data_split'' (remote config ''/train_val_test_split'') None
       (resolve config
         [(''input'', Cfg [''m_params'', ''data_split'', ''input'']),
          (''test_size'', Cfg [''modeling'', ''test_size'']),
          (''random_seed'', Cfg [''modeling'', ''random_seed'']),
          (''stratify_by'', Cfg [''modeling'', ''stratify_by''])])"

text \<open>
  Lines 94 to 96: the file is opened for writing (created or truncated) before the
  hyperparameter block is looked up; \<^verbatim>\<open>.items()\<close> needs a mapping, and
  \<^verbatim>\<open>json.dump\<close> writes scalars only (a nested mapping is a \<^verbatim>\<open>DictConfig\<close>, which it
  rejects). The JSON text itself is not modelled: \<open>Dump p kvs\<close> writes the encoding of
  \<open>kvs\<close> to \<open>p\<close>.
\<close>

fun items :: "cfg \<Rightarrow> error + (string \<times> cfg) list" where
  "items (Dict kvs) = Inr kvs"
| "items (Str s) = Inl AttributeError"
| "items (Num n) = Inl AttributeError"

fun serializable :: "cfg \<Rightarrow> bool" where
  "serializable (Dict kvs) = False"
| "serializable (Str s) = True"
| "serializable (Num n) = True"

definition write_rf_config :: "string \<Rightarrow> cfg \<Rightarrow> outcome" where
  "write_rf_config rf_config config =
     (case getpath config [''modeling'', ''random_forest''] of
        Inl e \<Rightarrow> ([OpenW rf_config], Some e)
      | Inr rf \<Rightarrow> (case items rf of
                    Inl e \<Rightarrow> ([OpenW rf_config], Some e)
                  | Inr kvs \<Rightarrow>
                      if list_all serializable (map snd kvs)
                      then ([OpenW rf_config, Dump rf_config kvs], None)
                      else ([OpenW rf_config], Some TypeError)))"

definition train_random_forest :: "env \<Rightarrow> cfg \<Rightarrow> outcome" where
  "train_random_forest env config =
     (let rf_config = abspath env ''rf_config.json'' in
      seq_run
        [write_rf_config rf_config config,
         call env ''train_random_forest'' (local_unit env ''train_random_forest'') None
           (resolve config
             [(''trainval_artifact'', Cfg [''m_params'', ''train_random_forest'', ''trainval_artifact'']),
              (''val_size'', Cfg [''modeling'', ''val_size'']),
              (''random_seed'', Cfg [''modeling'', ''random_seed'']),
              (''stratify_by'', Cfg [''modeling'', ''stratify_by'']),
              (''rf_config'', Lit (Str rf_config)),
              (''max_tfidf_features'', Cfg [''modeling'', ''max_tfidf_features'']),
              (''output_artifact'', Cfg [''m_params'', ''train_random_forest'', ''output_artifact''])])])"

definition test_regression_model :: "env \<Rightarrow> cfg \<Rightarrow> outcome" where
  "test_regression_model env config =
     call env ''test_regression_model'' (remote config ''/test_regression_model'') None
       (resolve config
         [(''mlflow_model'', Cfg [''m_params'', ''test_regression_model'', ''mlflow_model'']),
          (''test_dataset'', Cfg [''m_params'', ''test_regression_model'', ''test_dataset''])])"

section \<open>The driver\<close>

text \<open>The six guarded blocks of lines 38 to 122, in the order of the source.\<close>

definition step_table :: "env \<Rightarrow> cfg \<Rightarrow> (string \<times> outcome) list" where
  "step_table env config =
     [(''download'', download env config),
      (''basic_cleaning'', basic_cleaning env config),
      (''data_check'', data_check env config),
      (''data_split'', data_split env config),
      (''train_random_forest'', train_random_forest env config),
      (''test_regression_model'', test_regression_model env config)]"

definition guarded :: "string list \<Rightarrow> string \<times> outcome \<Rightarrow> outcome" where
  "guarded active nb = (if fst nb \<in> set active then snd nb else skip)"

definition blocks :: "env \<Rightarrow> cfg \<Rightarrow> string list \<Rightarrow> outcome list" where
  "blocks env config active = map (guarded active) (step_table env config)"

definition run_steps :: "env \<Rightarrow> cfg \<Rightarrow> string list \<Rightarrow> outcome" where
  "run_steps env config active = seq_run (blocks env config active)"

text \<open>\<^verbatim>\<open>os.environ[k] = v\<close> accepts a string only.\<close>

fun environ_value :: "cfg \<Rightarrow> error + string" where
  "environ_value (Str s) = Inr s"
| "environ_value (Num n) = Inl TypeError"
| "environ_value (Dict kvs) = Inl TypeError"

text \<open>
  Lines 28 to 33, without the temporary directory: the two environment variables, then
  the step selection. The result is the events so far and either the exception or the
  active steps.
\<close>

definition prepare :: "cfg \<Rightarrow> event list \<times> (error + string list)" where
  "prepare config =
     (case getpath config [''main'', ''project_name''] of
        Inl e \<Rightarrow> ([], Inl e)
      | Inr v1 \<Rightarrow> (case environ_value v1 of
          Inl e \<Rightarrow> ([], Inl e)
        | Inr p \<Rightarrow> (case getpath config [''main'', ''experiment_name''] of
            Inl e \<Rightarrow> ([SetEnv ''WANDB_PROJECT'' p], Inl e)
          | Inr v2 \<Rightarrow> (case environ_value v2 of
              Inl e \<Rightarrow> ([SetEnv ''WANDB_PROJECT'' p], Inl e)
            | Inr g \<Rightarrow> (case getpath config [''main'', ''steps''] of
                Inl e \<Rightarrow> ([SetEnv ''WANDB_PROJECT'' p, SetEnv ''WANDB_RUN_GROUP'' g], Inl e)
              | Inr steps_par \<Rightarrow>
                  ([SetEnv ''WANDB_PROJECT'' p, SetEnv ''WANDB_RUN_GROUP'' g],
                   active_steps steps_par))))))"

text \<open>
  \<^verbatim>\<open>go\<close>: the preparation, then the \<^verbatim>\<open>with tempfile.TemporaryDirectory() as tmp_dir\<close> block,
  whose exit removes the directory whether the body returned or raised, and lets the
  exception through.
\<close>

definition go :: "env \<Rightarrow> cfg \<Rightarrow> outcome" where
  "go env config =
     (case prepare config of
        (evs, Inl e) \<Rightarrow> (evs, Some e)
      | (evs, Inr active) \<Rightarrow>
          (evs @ [MkDir (mkdtemp env)] @ fst (run_steps env config active) @ [RmTree (mkdtemp env)],
           snd (run_steps env config active)))"

section \<open>The state of the process and of the file system\<close>

record os_state =
  environ :: "string \<Rightarrow> string option"
  dirs :: "string set"
  files :: "string \<Rightarrow> contents option"

definition inside :: "string \<Rightarrow> string \<Rightarrow> bool" where
  "inside d p = (p = d \<or> prefix (d @ ''/'') p)"

fun exec :: "os_state \<Rightarrow> event \<Rightarrow> os_state" where
  "exec s (SetEnv k v) = s\<lparr>environ := (environ s)(k \<mapsto> v)\<rparr>"
| "exec s (MkDir d) = s\<lparr>dirs := insert d (dirs s)\<rparr>"
| "exec s (OpenW p) = s\<lparr>files := (files s)(p \<mapsto> Incomplete)\<rparr>"
| "exec s (Dump p kvs) = s\<lparr>files := (files s)(p \<mapsto> Json kvs)\<rparr>"
| "exec s (Run n iv) = s"
| "exec s (RmTree d) =
     s\<lparr>dirs := Set.filter (\<lambda>p. \<not> inside d p) (dirs s),
       files := (\<lambda>p. if inside d p then None else files s p)\<rparr>"

definition replay :: "os_state \<Rightarrow> event list \<Rightarrow> os_state" where
  "replay s evs = foldl exec s evs"

section \<open>Shapes of blocks\<close>

text \<open>
  Predicates used in the proofs. A block of the driver writes files at most, then either
  stops on a configuration error or makes its one call, which succeeds or raises.
\<close>

fun file_event :: "event \<Rightarrow> bool" where
  "file_event (OpenW p) = True"
| "file_event (Dump p kvs) = True"
| "file_event e = False"

fun config_error :: "error \<Rightarrow> bool" where
  "config_error (ExecutionException n) = False"
| "config_error e = True"

definition block_of :: "env \<Rightarrow> string \<Rightarrow> outcome \<Rightarrow> bool" where
  "block_of env n b \<longleftrightarrow>
     (\<exists>pre. list_all file_event pre \<and>
        ((\<exists>e. b = (pre, Some e) \<and> config_error e) \<or>
         (\<exists>iv. b = (pre @ [Run n iv],
                    if mlflow_run env iv then None else Some (ExecutionException n)))))"

section \<open>A concrete configuration\<close>

text \<open>
  A configuration with every key the six steps read, for a given step selection, and an
  environment whose runner succeeds except on the steps listed.
\<close>

definition sample_config :: "string \<Rightarrow> cfg" where
  "sample_config steps_par =
     Dict [(''main'', Dict [(''components_repository'', Str ''https://example.org/components''),
                           (''project_name'', Str ''nyc_airbnb''),
                           (''experiment_name'', Str ''development''),
                           (''steps'', Str steps_par)]),
           (''etl'', Dict [(''sample'', Str ''sample1.csv''),
                          (''min_price'', Num 10),
                          (''max_price'', Num 350)]),
           (''data_check'', Dict [(''kl_threshold'', Num 2)]),
           (''modeling'', Dict [(''test_size'', Num 2),
                               (''val_size'', Num 2),
                               (''random_seed'', Num 42),
                               (''stratify_by'', Str ''neighbourhood_group''),
                               (''max_tfidf_features'', Num 5),
                               (''random_forest'', Dict [(''n_estimators'', Num 100),
                                                        (''max_depth'', Num 10)])]),
           (''m_params'', Dict
             [(''download'', Dict [(''artifact_name'', Str ''sample.csv''),
                                  (''artifact_type'', Str ''raw_data''),
                                  (''artifact_description'', Str ''Raw file'')]),
              (''basic_cleaning'', Dict [(''input_artifact'', Str ''sample.csv:latest''),
                                        (''output_artifact'', Str ''clean_sample.csv''),
                                        (''output_type'', Str ''clean_sample''),
                                        (''output_description'', Str ''Cleaned'')]),
              (''data_check'', Dict [(''csv'', Str ''clean_sample.csv:latest''),
                                    (''ref'', Str ''clean_sample.csv:reference'')]),
              (''data_split'', Dict [(''input'', Str ''clean_sample.csv:latest'')]),
              (''train_random_forest'', Dict [(''trainval_artifact'', Str ''trainval_data.csv:latest''),
                                             (''output_artifact'', Str ''random_forest_export'')]),
              (''test_regression_model'', Dict [(''mlflow_model'', Str ''random_forest_export:prod''),
                                               (''test_dataset'', Str ''test_data.csv:latest'')])])]"

text \<open>The same configuration with one top-level section removed.\<close>

fun without :: "string \<Rightarrow> cfg \<Rightarrow> cfg" where
  "without k (Dict kvs) = Dict (filter (\<lambda>kv. fst kv \<noteq> k) kvs)"
| "without k c = c"

definition sample_env :: "uri list \<Rightarrow> env" where
  "sample_env failing =
     \<lparr>getcwd = ''/home/user/project/outputs'',
      original_cwd = ''/home/user/project'',
      mkdtemp = ''/tmp/tmpk3x9'',
      mlflow_run = (\<lambda>iv. uri iv \<notin> set failing)\<rparr>"

definition empty_os :: os_state where
  "empty_os = \<lparr>environ = (\<lambda>k. None), dirs = {''/home/user/project/outputs''}, files = (\<lambda>p. None)\<rparr>"

section \<open>Reading the hyperparameter file back\<close>




section \<open>The shape of every block\<close>

lemma invoked_append: "invoked (xs @ ys) = invoked xs @ invoked ys"
  by (induction xs rule: invoked.induct) simp_all

lemma invoked_file_events: "list_all file_event xs \<Longrightarrow> invoked xs = []"
  by (induction xs rule: invoked.induct) simp_all

lemma getitem_error: "getitem c k = Inl e \<Longrightarrow> config_error e"
  by (cases c) (auto split: option.splits)

lemma getpath_error: "getpath c ks = Inl e \<Longrightarrow> config_error e"
proof (induction ks arbitrary: c)
  case Nil
  then show ?case by simp
next
  case (Cons k ks)
  show ?case
  proof (cases "getitem c k")
    case (Inl e')
    with Cons.prems have "e' = e" by simp
    with Inl show ?thesis by (auto dest: getitem_error)
  next
    case (Inr v)
    with Cons.prems have "getpath v ks = Inl e" by simp
    then show ?thesis by (rule Cons.IH)
  qed
qed

lemma resolve_error: "resolve config spec = Inl e \<Longrightarrow> config_error e"
proof (induction spec)
  case Nil
  then show ?case by simp
next
  case (Cons a spec)
  obtain name src where a: "a = (name, src)" by (cases a)
  show ?case
  proof (cases src)
    case (Cfg path)
    show ?thesis
    proof (cases "getpath config path")
      case (Inl e')
      with Cons.prems a Cfg have "e' = e" by simp
      with Inl show ?thesis by (auto dest: getpath_error)
    next
      case (Inr v)
      with Cons.prems a Cfg have "resolve config spec = Inl e"
        by (simp split: sum.splits)
      then show ?thesis by (rule Cons.IH)
    qed
  next
    case (Lit v)
    with Cons.prems a have "resolve config spec = Inl e"
      by (simp split: sum.splits)
    then show ?thesis by (rule Cons.IH)
  qed
qed

lemma remote_error: "remote config t = Inl e \<Longrightarrow> config_error e"
  unfolding remote_def
  by (cases "getpath config [''main'', ''components_repository'']")
     (auto dest: getpath_error simp del: getpath.simps)

lemma local_unit_error: "local_unit env n = Inl e \<Longrightarrow> config_error e"
  by (simp add: local_unit_def)

lemma block_of_call:
  assumes "\<And>e. loc = Inl e \<Longrightarrow> config_error e" and "\<And>e. ps = Inl e \<Longrightarrow> config_error e"
  shows "block_of env n (call env n loc ver ps)"
proof (cases loc)
  case (Inl e)
  with assms(1) show ?thesis
    by (auto simp: block_of_def call_def intro!: exI[of _ "[]"])
next
  case (Inr u)
  show ?thesis
  proof (cases ps)
    case (Inl e)
    with Inr assms(2) show ?thesis
      by (auto simp: block_of_def call_def intro!: exI[of _ "[]"])
  next
    case (Inr p)
    with \<open>loc = Inr u\<close> show ?thesis
      unfolding block_of_def call_def invoke_def
      by (intro exI[of _ "[]"]) simp
  qed
qed

lemma block_of_download: "block_of env ''download'' (download env config)"
  unfolding download_def by (rule block_of_call) (erule remote_error resolve_error)+

lemma block_of_basic_cleaning: "block_of env ''basic_cleaning'' (basic_cleaning env config)"
  unfolding basic_cleaning_def
  by (rule block_of_call) (erule local_unit_error resolve_error)+

lemma block_of_data_check: "block_of env ''data_check'' (data_check env config)"
  unfolding data_check_def
  by (rule block_of_call) (erule local_unit_error resolve_error)+

lemma block_of_data_split: "block_of env ''data_split'' (data_split env config)"
  unfolding data_split_def by (rule block_of_call) (erule remote_error resolve_error)+

lemma block_of_test_regression_model:
  "block_of env ''test_regression_model'' (test_regression_model env config)"
  unfolding test_regression_model_def
  by (rule block_of_call) (erule remote_error resolve_error)+

lemma write_rf_config_cases:
  "(\<exists>e. write_rf_config p config = ([OpenW p], Some e) \<and> config_error e) \<or>
   (\<exists>kvs. write_rf_config p config = ([OpenW p, Dump p kvs], None))"
proof (cases "getpath config [''modeling'', ''random_forest'']")
  case (Inl e)
  then show ?thesis
    unfolding write_rf_config_def by (auto dest: getpath_error simp del: getpath.simps)
next
  case (Inr rf)
  then show ?thesis
    unfolding write_rf_config_def by (cases rf) (simp_all del: getpath.simps)
qed

lemma seq_run_single: "seq_run [b] = b"
proof (cases b)
  case (Pair evs r)
  then show ?thesis by (cases r) simp_all
qed

lemma block_of_after_writes:
  assumes xs: "list_all file_event xs" and c: "block_of env n c"
  shows "block_of env n (seq_run [(xs, None), c])"
proof -
  from c obtain pre where pre: "list_all file_event pre"
    and alt: "(\<exists>e. c = (pre, Some e) \<and> config_error e) \<or>
         (\<exists>iv. c = (pre @ [Run n iv],
                    if mlflow_run env iv then None else Some (ExecutionException n)))"
    unfolding block_of_def by blast
  have all: "list_all file_event (xs @ pre)" using xs pre by simp
  have eq: "seq_run [(xs, None), c] = (xs @ fst c, snd c)"
    by (simp add: seq_run_single)
  from alt show ?thesis
  proof
    assume "\<exists>e. c = (pre, Some e) \<and> config_error e"
    then obtain e where "c = (pre, Some e)" "config_error e" by blast
    with eq have "seq_run [(xs, None), c] = (xs @ pre, Some e) \<and> config_error e" by simp
    with all show ?thesis unfolding block_of_def by blast
  next
    assume "\<exists>iv. c = (pre @ [Run n iv],
                    if mlflow_run env iv then None else Some (ExecutionException n))"
    then obtain iv where "c = (pre @ [Run n iv],
                    if mlflow_run env iv then None else Some (ExecutionException n))" by blast
    with eq have "seq_run [(xs, None), c] = ((xs @ pre) @ [Run n iv],
                    if mlflow_run env iv then None else Some (ExecutionException n))" by simp
    with all show ?thesis unfolding block_of_def by blast
  qed
qed

lemma block_of_train_random_forest:
  "block_of env ''train_random_forest'' (train_random_forest env config)"
proof -
  define p where "p = abspath env ''rf_config.json''"
  define c where "c = call env ''train_random_forest'' (local_unit env ''train_random_forest'') None
           (resolve config
             [(''trainval_artifact'', Cfg [''m_params'', ''train_random_forest'', ''trainval_artifact'']),
              (''val_size'', Cfg [''modeling'', ''val_size'']),
              (''random_seed'', Cfg [''modeling'', ''random_seed'']),
              (''stratify_by'', Cfg [''modeling'', ''stratify_by'']),
              (''rf_config'', Lit (Str p)),
              (''max_tfidf_features'', Cfg [''modeling'', ''max_tfidf_features'']),
              (''output_artifact'', Cfg [''m_params'', ''train_random_forest'', ''output_artifact''])])"
  have c: "block_of env ''train_random_forest'' c"
    unfolding c_def by (rule block_of_call) (erule local_unit_error resolve_error)+
  have t: "train_random_forest env config = seq_run [write_rf_config p config, c]"
    by (simp only: train_random_forest_def Let_def p_def c_def)
  from write_rf_config_cases[of p config] show ?thesis
  proof (elim disjE exE conjE)
    fix e assume "write_rf_config p config = ([OpenW p], Some e)" "config_error e"
    then show ?thesis
      unfolding t block_of_def by (intro exI[of _ "[OpenW p]"]) simp
  next
    fix kvs assume w: "write_rf_config p config = ([OpenW p, Dump p kvs], None)"
    have "block_of env ''train_random_forest'' (seq_run [([OpenW p, Dump p kvs], None), c])"
      by (rule block_of_after_writes[OF _ c]) simp
    with w show ?thesis unfolding t by simp
  qed
qed

lemma step_table_blocks:
  "list_all (\<lambda>nb. block_of env (fst nb) (snd nb)) (step_table env config)"
  by (simp add: step_table_def block_of_download block_of_basic_cleaning block_of_data_check
        block_of_data_split block_of_train_random_forest block_of_test_regression_model)

section \<open>Blocks in sequence\<close>

lemma block_of_events:
  "block_of env n b \<Longrightarrow> list_all (\<lambda>e. file_event e \<or> is_Run e) (fst b)"
  unfolding block_of_def by (auto simp: list_all_iff)

lemma block_of_None:
  assumes "block_of env n b" and "snd b = None"
  shows "invoked (fst b) = [n]"
  using assms unfolding block_of_def
  by (auto simp: invoked_append invoked_file_events split: if_splits)

lemma block_of_Some:
  assumes "block_of env n b" and "snd b = Some e"
  shows "(invoked (fst b) = [] \<and> config_error e) \<or>
         (invoked (fst b) = [n] \<and> e = ExecutionException n)"
  using assms unfolding block_of_def
  by (auto simp: invoked_append invoked_file_events split: if_splits)

lemma seq_run_Cons:
  "seq_run (b # bs) =
     (case snd b of Some e \<Rightarrow> b | None \<Rightarrow> (fst b @ fst (seq_run bs), snd (seq_run bs)))"
proof (cases b)
  case (Pair evs r)
  then show ?thesis by (cases r) simp_all
qed

lemma guarded_invoked:
  assumes "list_all (\<lambda>nb. block_of env (fst nb) (snd nb)) tb"
  shows "prefix (invoked (fst (seq_run (map (guarded active) tb))))
                (filter (\<lambda>n. n \<in> set active) (map fst tb)) \<and>
         (snd (seq_run (map (guarded active) tb)) = None \<longrightarrow>
            invoked (fst (seq_run (map (guarded active) tb))) =
            filter (\<lambda>n. n \<in> set active) (map fst tb)) \<and>
         (\<forall>n. snd (seq_run (map (guarded active) tb)) = Some (ExecutionException n) \<longrightarrow>
            n \<in> set (invoked (fst (seq_run (map (guarded active) tb)))))"
  using assms
proof (induction tb)
  case Nil
  then show ?case by simp
next
  case (Cons nb tb)
  obtain n b where nb: "nb = (n, b)" by (cases nb)
  from Cons.prems nb have b: "block_of env n b"
    and tb: "list_all (\<lambda>nb. block_of env (fst nb) (snd nb)) tb" by simp_all
  note IH = Cons.IH[OF tb]
  show ?case
  proof (cases "n \<in> set active")
    case False
    then have "seq_run (map (guarded active) (nb # tb)) = seq_run (map (guarded active) tb)"
      by (simp add: nb guarded_def skip_def)
    with IH False nb show ?thesis by simp
  next
    case True
    then have g: "guarded active nb = b" by (simp add: nb guarded_def)
    show ?thesis
    proof (cases "snd b")
      case None
      then have s: "seq_run (map (guarded active) (nb # tb)) =
          (fst b @ fst (seq_run (map (guarded active) tb)), snd (seq_run (map (guarded active) tb)))"
        by (simp add: g seq_run_Cons)
      from block_of_None[OF b None] have i: "invoked (fst b) = [n]" .
      from IH show ?thesis
        unfolding s by (simp add: invoked_append i nb True)
    next
      case (Some e)
      then have s: "seq_run (map (guarded active) (nb # tb)) = b"
        by (simp add: g seq_run_Cons)
      from block_of_Some[OF b Some] show ?thesis
        unfolding s by (auto simp: nb True Some)
    qed
  qed
qed

lemma seq_run_events:
  "list_all (\<lambda>b. list_all P (fst b)) bs \<Longrightarrow> list_all P (fst (seq_run bs))"
  by (induction bs) (auto simp: seq_run_Cons split: option.splits)

lemma seq_run_first_failure:
  "list_all (\<lambda>b. snd b = None) bs1 \<Longrightarrow>
   seq_run (bs1 @ (evs, Some e) # bs2) = (concat (map fst bs1) @ evs, Some e)"
  by (induction bs1) (auto simp: seq_run_Cons)

lemma guarded_shape:
  "block_of env (fst nb) (snd nb) \<Longrightarrow>
   guarded active nb = skip \<or> block_of env (fst nb) (guarded active nb)"
  by (simp add: guarded_def)

lemma append_eq_split:
  "xs @ ys = pre @ e # post \<Longrightarrow> e \<notin> set xs \<Longrightarrow> \<exists>pre'. pre = xs @ pre' \<and> ys = pre' @ e # post"
proof (induction xs arbitrary: pre)
  case Nil
  then show ?case by simp
next
  case (Cons x xs)
  then show ?case by (cases pre) auto
qed

lemma file_event_not_Run: "list_all file_event xs \<Longrightarrow> Run n iv \<notin> set xs"
  by (induction xs) auto

lemma block_of_failed_call:
  assumes b: "block_of env n b" and d: "fst b = pre @ Run m iv # post"
  shows "m = n \<and> post = [] \<and> invoked pre = [] \<and>
         snd b = (if mlflow_run env iv then None else Some (ExecutionException n))"
proof -
  from b obtain xs where xs: "list_all file_event xs"
    and alt: "(\<exists>e. b = (xs, Some e) \<and> config_error e) \<or>
         (\<exists>iv. b = (xs @ [Run n iv],
                    if mlflow_run env iv then None else Some (ExecutionException n)))"
    unfolding block_of_def by blast
  from alt show ?thesis
  proof
    assume "\<exists>e. b = (xs, Some e) \<and> config_error e"
    with d have "Run m iv \<in> set xs" by auto
    with file_event_not_Run[OF xs] show ?thesis by blast
  next
    assume "\<exists>iv. b = (xs @ [Run n iv],
                    if mlflow_run env iv then None else Some (ExecutionException n))"
    then obtain iv' where b': "b = (xs @ [Run n iv'],
                    if mlflow_run env iv' then None else Some (ExecutionException n))" by blast
    with d have "xs @ [Run n iv'] = pre @ Run m iv # post" by simp
    from append_eq_split[OF this file_event_not_Run[OF xs]]
    obtain pre' where "pre = xs @ pre'" "[Run n iv'] = pre' @ Run m iv # post" by blast
    then have "pre' = []" "post = []" "m = n" "iv' = iv" "pre = xs"
      by (auto simp: Cons_eq_append_conv)
    with b' xs show ?thesis by (simp add: invoked_file_events)
  qed
qed

lemma seq_run_failed_call:
  assumes "list_all (\<lambda>b. b = skip \<or> (\<exists>n. block_of env n b)) bs"
    and "fst (seq_run bs) = pre @ Run n iv # post"
    and "\<not> mlflow_run env iv"
  shows "snd (seq_run bs) = Some (ExecutionException n) \<and> invoked post = []"
  using assms
proof (induction bs arbitrary: pre)
  case Nil
  then show ?case by simp
next
  case (Cons b bs)
  from Cons.prems(1) have bs: "list_all (\<lambda>b. b = skip \<or> (\<exists>n. block_of env n b)) bs"
    and b: "b = skip \<or> (\<exists>n. block_of env n b)" by simp_all
  from b show ?case
  proof
    assume "b = skip"
    then have "seq_run (b # bs) = seq_run bs" by (simp add: skip_def)
    with Cons.IH[OF bs _ Cons.prems(3)] Cons.prems(2) show ?thesis by simp
  next
    assume "\<exists>n. block_of env n b"
    then obtain m where m: "block_of env m b" by blast
    show ?thesis
    proof (cases "Run n iv \<in> set (fst b)")
      case True
      then obtain p q where pq: "fst b = p @ Run n iv # q" by (auto simp: in_set_conv_decomp)
      from block_of_failed_call[OF m pq] Cons.prems(3)
      have f: "n = m" "q = []" "snd b = Some (ExecutionException m)" by simp_all
      then have s: "seq_run (b # bs) = b" by (simp add: seq_run_Cons)
      from block_of_Some[OF m f(3)] have "invoked (fst b) = [m]" by simp
      moreover from Cons.prems(2) s have "invoked (fst b) = invoked pre @ n # invoked post"
        by (simp add: invoked_append)
      ultimately have "invoked post = []" by (cases "invoked pre") simp_all
      with s f show ?thesis by simp
    next
      case False
      show ?thesis
      proof (cases "snd b")
        case None
        then have s: "seq_run (b # bs) = (fst b @ fst (seq_run bs), snd (seq_run bs))"
          by (simp add: seq_run_Cons)
        with Cons.prems(2) have "fst b @ fst (seq_run bs) = pre @ Run n iv # post" by simp
        from append_eq_split[OF this False]
        obtain pre' where "fst (seq_run bs) = pre' @ Run n iv # post" by blast
        from Cons.IH[OF bs this Cons.prems(3)] s show ?thesis by simp
      next
        case (Some e)
        then have "seq_run (b # bs) = b" by (simp add: seq_run_Cons)
        with Cons.prems(2) False show ?thesis by auto
      qed
    qed
  qed
qed

section \<open>The driver as a whole\<close>

lemma environ_value_Str: "environ_value v = Inr p \<Longrightarrow> v = Str p"
  by (cases v) simp_all

lemma prepare_cases:
  "(\<exists>e. prepare config = ([], Inl e) \<and>
        \<not> (\<exists>p. getpath config [''main'', ''project_name''] = Inr (Str p))) \<or>
   (\<exists>p e. prepare config = ([SetEnv ''WANDB_PROJECT'' p], Inl e) \<and>
        getpath config [''main'', ''project_name''] = Inr (Str p) \<and>
        \<not> (\<exists>g. getpath config [''main'', ''experiment_name''] = Inr (Str g))) \<or>
   (\<exists>p g. getpath config [''main'', ''project_name''] = Inr (Str p) \<and>
        getpath config [''main'', ''experiment_name''] = Inr (Str g) \<and>
        prepare config =
          ([SetEnv ''WANDB_PROJECT'' p, SetEnv ''WANDB_RUN_GROUP'' g],
           case getpath config [''main'', ''steps''] of
             Inl e \<Rightarrow> Inl e
           | Inr steps_par \<Rightarrow> active_steps steps_par))"
proof (cases "getpath config [''main'', ''project_name'']")
  case (Inl e)
  then show ?thesis unfolding prepare_def by (simp del: getpath.simps)
next
  case v1: (Inr v1)
  show ?thesis
  proof (cases "environ_value v1")
    case (Inl e)
    then have "\<And>p. v1 \<noteq> Str p" by auto
    with v1 Inl show ?thesis unfolding prepare_def by (simp del: getpath.simps)
  next
    case p: (Inr p)
    then have v1p: "v1 = Str p" by (rule environ_value_Str)
    show ?thesis
    proof (cases "getpath config [''main'', ''experiment_name'']")
      case (Inl e)
      with v1 p v1p show ?thesis unfolding prepare_def by (simp del: getpath.simps)
    next
      case v2: (Inr v2)
      show ?thesis
      proof (cases "environ_value v2")
        case (Inl e)
        then have "\<And>g. v2 \<noteq> Str g" by auto
        with v1 p v1p v2 Inl show ?thesis unfolding prepare_def by (simp del: getpath.simps)
      next
        case g: (Inr g)
        then have "v2 = Str g" by (rule environ_value_Str)
        with v1 p v1p v2 g show ?thesis
          unfolding prepare_def by (simp del: getpath.simps split: sum.splits)
      qed
    qed
  qed
qed

lemma prepare_events: "list_all is_SetEnv (fst (prepare config))"
  using prepare_cases[of config] by auto

lemma blocks_shape:
  "list_all (\<lambda>b. b = skip \<or> (\<exists>n. block_of env n b)) (blocks env config active)"
proof -
  have "list_all (\<lambda>nb. guarded active nb = skip \<or> (\<exists>n. block_of env n (guarded active nb))) tb"
    if "list_all (\<lambda>nb. block_of env (fst nb) (snd nb)) tb" for tb
    using that by (induction tb) (auto dest: guarded_shape[where active = active])
  from this[OF step_table_blocks] show ?thesis
    by (simp add: blocks_def list_all_iff)
qed

lemma run_steps_events:
  "list_all (\<lambda>e. file_event e \<or> is_Run e) (fst (run_steps env config active))"
  unfolding run_steps_def
proof (rule seq_run_events)
  show "list_all (\<lambda>b. list_all (\<lambda>e. file_event e \<or> is_Run e) (fst b)) (blocks env config active)"
    unfolding list_all_iff
  proof
    fix b assume "b \<in> set (blocks env config active)"
    with blocks_shape[of env config active]
    have "b = skip \<or> (\<exists>n. block_of env n b)" by (simp add: list_all_iff)
    then show "\<forall>e\<in>set (fst b). file_event e \<or> is_Run e"
      by (auto simp: skip_def list_all_iff dest!: block_of_events)
  qed
qed

lemma step_names: "map fst (step_table env config) = steps_registry @ [''test_regression_model'']"
  by (simp add: step_table_def steps_registry_def)

lemma run_steps_invoked:
  "prefix (invoked (fst (run_steps env config active)))
          (filter (\<lambda>n. n \<in> set active) (steps_registry @ [''test_regression_model'']))"
  "snd (run_steps env config active) = None \<Longrightarrow>
     invoked (fst (run_steps env config active)) =
     filter (\<lambda>n. n \<in> set active) (steps_registry @ [''test_regression_model''])"
  "snd (run_steps env config active) = Some (ExecutionException n) \<Longrightarrow>
     n \<in> set (invoked (fst (run_steps env config active)))"
  using guarded_invoked[where tb = "step_table env config" and env = env and active = active,
      OF step_table_blocks]
  unfolding run_steps_def blocks_def step_names by blast+

lemma invoked_SetEnv: "list_all is_SetEnv xs \<Longrightarrow> invoked xs = []"
  by (induction xs rule: invoked.induct) simp_all

lemma go_cases:
  "(\<exists>e. prepare config = (fst (go env config), Inl e) \<and> snd (go env config) = Some e) \<or>
   (\<exists>sets active. prepare config = (sets, Inr active) \<and>
      go env config =
        (sets @ [MkDir (mkdtemp env)] @ fst (run_steps env config active) @ [RmTree (mkdtemp env)],
         snd (run_steps env config active)))"
proof (cases "prepare config")
  case (Pair sets r)
  then show ?thesis by (cases r) (simp_all add: go_def)
qed

lemma go_invoked:
  "(\<exists>e. prepare config = (fst (go env config), Inl e) \<and> snd (go env config) = Some e \<and>
        invoked (fst (go env config)) = []) \<or>
   (\<exists>sets active. prepare config = (sets, Inr active) \<and>
      invoked (fst (go env config)) = invoked (fst (run_steps env config active)) \<and>
      snd (go env config) = snd (run_steps env config active))"
  using go_cases[of config env]
proof
  assume "\<exists>e. prepare config = (fst (go env config), Inl e) \<and> snd (go env config) = Some e"
  then obtain e where e: "prepare config = (fst (go env config), Inl e)" "snd (go env config) = Some e"
    by blast
  with prepare_events[of config] have "invoked (fst (go env config)) = []"
    by (simp add: invoked_SetEnv)
  with e show ?thesis by blast
next
  assume "\<exists>sets active. prepare config = (sets, Inr active) \<and>
      go env config =
        (sets @ [MkDir (mkdtemp env)] @ fst (run_steps env config active) @ [RmTree (mkdtemp env)],
         snd (run_steps env config active))"
  then obtain sets active where p: "prepare config = (sets, Inr active)"
    and g: "go env config =
        (sets @ [MkDir (mkdtemp env)] @ fst (run_steps env config active) @ [RmTree (mkdtemp env)],
         snd (run_steps env config active))" by blast
  from prepare_events[of config] p have "invoked sets = []" by (simp add: invoked_SetEnv)
  with g have "invoked (fst (go env config)) = invoked (fst (run_steps env config active))"
    by (simp add: invoked_append)
  with p g show ?thesis by auto
qed

lemma prepare_active:
  assumes "prepare config = (sets, Inr active)"
  shows "\<exists>steps_par. getpath config [''main'', ''steps''] = Inr steps_par \<and>
           active_steps steps_par = Inr active"
  using prepare_cases[of config] assms
  by (auto split: sum.splits simp del: getpath.simps)

section \<open>Which steps run\<close>

lemma filter_registry:
  "filter (\<lambda>n. n \<in> set steps_registry) (steps_registry @ [''test_regression_model'']) = steps_registry"
  by (simp add: steps_registry_def)

lemma guarded_set: "set a = set b \<Longrightarrow> guarded a = guarded b"
  by (simp add: guarded_def fun_eq_iff)

lemma run_steps_set: "set a = set b \<Longrightarrow> run_steps env config a = run_steps env config b"
  by (simp add: run_steps_def blocks_def guarded_set[of a b])

lemma environ_value_error: "environ_value v = Inl e \<Longrightarrow> config_error e"
  by (cases v) auto

lemma active_steps_error: "active_steps v = Inl e \<Longrightarrow> config_error e"
  by (cases v) (auto simp: active_steps_def split: if_splits)

lemma prepare_error: "prepare config = (sets, Inl e) \<Longrightarrow> config_error e"
  unfolding prepare_def
  by (auto split: sum.splits simp del: getpath.simps
        dest: getpath_error environ_value_error active_steps_error)

text \<open>
  Claim C1. When the step selection is the string \<^verbatim>\<open>all\<close>, the active steps are the
  registry of five names, without \<^verbatim>\<open>test_regression_model\<close>. The steps invoked are
  always an initial part of the registry, in its order, and they are the whole registry
  when the run ends without an exception; \<^verbatim>\<open>test_regression_model\<close> is never invoked.
\<close>

theorem all_runs_registry:
  assumes steps: "getpath config [''main'', ''steps''] = Inr (Str ''all'')"
  shows "(\<forall>sets active. prepare config = (sets, Inr active) \<longrightarrow> active = steps_registry) \<and>
         prefix (invoked (fst (go env config))) steps_registry \<and>
         (snd (go env config) = None \<longrightarrow> invoked (fst (go env config)) = steps_registry) \<and>
         ''test_regression_model'' \<notin> set (invoked (fst (go env config))) \<and>
         steps_registry = [''download'', ''basic_cleaning'', ''data_check'', ''data_split'',
                           ''train_random_forest'']"
proof -
  have act: "active = steps_registry" if "prepare config = (sets, Inr active)" for sets active
    using prepare_active[OF that] steps by (simp add: active_steps_def del: getpath.simps)
  have notin: "''test_regression_model'' \<notin> set steps_registry"
    by (simp add: steps_registry_def)
  from go_invoked[of config env]
  have "prefix (invoked (fst (go env config))) steps_registry \<and>
        (snd (go env config) = None \<longrightarrow> invoked (fst (go env config)) = steps_registry)"
  proof
    assume "\<exists>e. prepare config = (fst (go env config), Inl e) \<and> snd (go env config) = Some e \<and>
        invoked (fst (go env config)) = []"
    then show ?thesis by auto
  next
    assume "\<exists>sets active. prepare config = (sets, Inr active) \<and>
      invoked (fst (go env config)) = invoked (fst (run_steps env config active)) \<and>
      snd (go env config) = snd (run_steps env config active)"
    then obtain sets active where p: "prepare config = (sets, Inr active)"
      and i: "invoked (fst (go env config)) = invoked (fst (run_steps env config active))"
      and r: "snd (go env config) = snd (run_steps env config active)" by blast
    from act[OF p] have a: "active = steps_registry" .
    from run_steps_invoked(1)[of env config active] run_steps_invoked(2)[of env config active]
    show ?thesis unfolding i r a filter_registry by blast
  qed
  moreover from this notin have "''test_regression_model'' \<notin> set (invoked (fst (go env config)))"
    using set_mono_prefix by blast
  ultimately show ?thesis using act by (auto simp: steps_registry_def)
qed

theorem all_runs_registry_witness:
  "getpath (sample_config ''all'') [''main'', ''steps''] = Inr (Str ''all'') \<and>
   invoked (fst (go (sample_env []) (sample_config ''all''))) =
     [''download'', ''basic_cleaning'', ''data_check'', ''data_split'', ''train_random_forest'']"
proof -
  have h: "getpath (sample_config ''all'') [''main'', ''steps''] = Inr (Str ''all'')"
    by (simp add: sample_config_def)
  have ok: "snd (go (sample_env []) (sample_config ''all'')) = None"
    by code_simp
  from all_runs_registry[OF h, of "sample_env []"] ok h show ?thesis by simp
qed

text \<open>
  Claim C2. When the step selection is any other string, the active steps are its
  comma-separated tokens. The steps invoked are an initial part of the six step names
  filtered by membership in the tokens, in the order of the source, and exactly that
  list when the run ends without an exception; a list of tokens with the same members,
  in whatever order, gives the same run.
\<close>

theorem explicit_selection:
  assumes steps: "getpath config [''main'', ''steps''] = Inr (Str s)" and s: "s \<noteq> ''all''"
  shows "(\<forall>sets active. prepare config = (sets, Inr active) \<longrightarrow> active = str_split CHR '','' s) \<and>
         prefix (invoked (fst (go env config)))
           (filter (\<lambda>n. n \<in> set (str_split CHR '','' s))
              (steps_registry @ [''test_regression_model''])) \<and>
         (snd (go env config) = None \<longrightarrow>
            invoked (fst (go env config)) =
            filter (\<lambda>n. n \<in> set (str_split CHR '','' s))
              (steps_registry @ [''test_regression_model''])) \<and>
         (\<forall>active'. set active' = set (str_split CHR '','' s) \<longrightarrow>
            run_steps env config active' = run_steps env config (str_split CHR '','' s))"
proof -
  have act: "active = str_split CHR '','' s" if "prepare config = (sets, Inr active)" for sets active
    using prepare_active[OF that] steps s by (simp add: active_steps_def del: getpath.simps)
  from go_invoked[of config env]
  have "prefix (invoked (fst (go env config)))
           (filter (\<lambda>n. n \<in> set (str_split CHR '','' s))
              (steps_registry @ [''test_regression_model''])) \<and>
         (snd (go env config) = None \<longrightarrow>
            invoked (fst (go env config)) =
            filter (\<lambda>n. n \<in> set (str_split CHR '','' s))
              (steps_registry @ [''test_regression_model'']))"
  proof
    assume "\<exists>e. prepare config = (fst (go env config), Inl e) \<and> snd (go env config) = Some e \<and>
        invoked (fst (go env config)) = []"
    then show ?thesis by auto
  next
    assume "\<exists>sets active. prepare config = (sets, Inr active) \<and>
      invoked (fst (go env config)) = invoked (fst (run_steps env config active)) \<and>
      snd (go env config) = snd (run_steps env config active)"
    then obtain sets active where p: "prepare config = (sets, Inr active)"
      and i: "invoked (fst (go env config)) = invoked (fst (run_steps env config active))"
      and r: "snd (go env config) = snd (run_steps env config active)" by blast
    from act[OF p] have a: "active = str_split CHR '','' s" .
    from run_steps_invoked(1)[of env config active] run_steps_invoked(2)[of env config active]
    show ?thesis unfolding i r a by blast
  qed
  then show ?thesis using act run_steps_set by blast
qed

theorem explicit_selection_witness:
  "getpath (sample_config ''data_check,download'') [''main'', ''steps''] =
     Inr (Str ''data_check,download'') \<and>
   ''data_check,download'' \<noteq> ''all'' \<and>
   invoked (fst (go (sample_env []) (sample_config ''data_check,download''))) =
     [''download'', ''data_check'']"
proof -
  have h: "getpath (sample_config ''data_check,download'') [''main'', ''steps''] =
     Inr (Str ''data_check,download'')"
    by (simp add: sample_config_def)
  have n: "''data_check,download'' \<noteq> ''all''" by simp
  have ok: "snd (go (sample_env []) (sample_config ''data_check,download'')) = None"
    by code_simp
  have f: "filter (\<lambda>n. n \<in> set (str_split CHR '','' ''data_check,download''))
              (steps_registry @ [''test_regression_model'']) = [''download'', ''data_check'']"
    by (simp add: steps_registry_def)
  from explicit_selection[OF h n, of "sample_env []"] ok h show ?thesis
    unfolding f by simp
qed

text \<open>
  Claim C3. A comma-separated selection that names \<^verbatim>\<open>test_regression_model\<close> passes
  the guard of the sixth block, which is then the step itself, and the step is invoked
  in every run that reaches it: one that ends without an exception, or with the failure
  of this very step.
\<close>

theorem explicit_test_regression_model:
  assumes steps: "getpath config [''main'', ''steps''] = Inr (Str s)"
    and mem: "''test_regression_model'' \<in> set (str_split CHR '','' s)"
    and res: "snd (go env config) = None \<or>
              snd (go env config) = Some (ExecutionException ''test_regression_model'')"
  shows "''test_regression_model'' \<in> set (invoked (fst (go env config))) \<and>
         last (blocks env config (str_split CHR '','' s)) = test_regression_model env config"
proof -
  have s: "s \<noteq> ''all''" using mem by auto
  have act: "active = str_split CHR '','' s" if "prepare config = (sets, Inr active)" for sets active
    using prepare_active[OF that] steps s by (simp add: active_steps_def del: getpath.simps)
  from go_invoked[of config env]
  have "''test_regression_model'' \<in> set (invoked (fst (go env config)))"
  proof
    assume "\<exists>e. prepare config = (fst (go env config), Inl e) \<and> snd (go env config) = Some e \<and>
        invoked (fst (go env config)) = []"
    then obtain e where p: "prepare config = (fst (go env config), Inl e)"
      and e: "snd (go env config) = Some e" by blast
    from p have "config_error e" by (rule prepare_error)
    with e res show ?thesis by auto
  next
    assume "\<exists>sets active. prepare config = (sets, Inr active) \<and>
      invoked (fst (go env config)) = invoked (fst (run_steps env config active)) \<and>
      snd (go env config) = snd (run_steps env config active)"
    then obtain sets active where p: "prepare config = (sets, Inr active)"
      and i: "invoked (fst (go env config)) = invoked (fst (run_steps env config active))"
      and r: "snd (go env config) = snd (run_steps env config active)" by blast
    from act[OF p] have a: "active = str_split CHR '','' s" .
    from res show ?thesis
    proof
      assume "snd (go env config) = None"
      with run_steps_invoked(2)[of env config active] mem show ?thesis
        unfolding i r a by simp
    next
      assume "snd (go env config) = Some (ExecutionException ''test_regression_model'')"
      with run_steps_invoked(3)[of env config active] show ?thesis
        unfolding i r by simp
    qed
  qed
  moreover have "last (blocks env config (str_split CHR '','' s)) = test_regression_model env config"
    using mem by (simp add: blocks_def step_table_def guarded_def)
  ultimately show ?thesis by blast
qed

theorem explicit_test_regression_model_witness:
  "getpath (sample_config ''test_regression_model,download'') [''main'', ''steps''] =
     Inr (Str ''test_regression_model,download'') \<and>
   ''test_regression_model'' \<in> set (str_split CHR '','' ''test_regression_model,download'') \<and>
   snd (go (sample_env []) (sample_config ''test_regression_model,download'')) = None \<and>
   ''test_regression_model'' \<in>
     set (invoked (fst (go (sample_env []) (sample_config ''test_regression_model,download''))))"
proof -
  have h: "getpath (sample_config ''test_regression_model,download'') [''main'', ''steps''] =
     Inr (Str ''test_regression_model,download'')"
    by (simp add: sample_config_def)
  have m: "''test_regression_model'' \<in> set (str_split CHR '','' ''test_regression_model,download'')"
    by simp
  have ok: "snd (go (sample_env []) (sample_config ''test_regression_model,download'')) = None"
    by code_simp
  from explicit_test_regression_model[OF h m disjI1[OF ok]] h m ok show ?thesis by blast
qed

section \<open>Tokens of the selection\<close>

lemma go_invoked_filter:
  assumes act: "\<And>sets active. prepare config = (sets, Inr active) \<Longrightarrow> active = a"
  shows "prefix (invoked (fst (go env config)))
           (filter (\<lambda>n. n \<in> set a) (steps_registry @ [''test_regression_model''])) \<and>
         (snd (go env config) = None \<longrightarrow>
            invoked (fst (go env config)) =
            filter (\<lambda>n. n \<in> set a) (steps_registry @ [''test_regression_model'']))"
  using go_invoked[of config env]
proof
  assume "\<exists>e. prepare config = (fst (go env config), Inl e) \<and> snd (go env config) = Some e \<and>
      invoked (fst (go env config)) = []"
  then show ?thesis by auto
next
  assume "\<exists>sets active. prepare config = (sets, Inr active) \<and>
    invoked (fst (go env config)) = invoked (fst (run_steps env config active)) \<and>
    snd (go env config) = snd (run_steps env config active)"
  then obtain sets active where p: "prepare config = (sets, Inr active)"
    and i: "invoked (fst (go env config)) = invoked (fst (run_steps env config active))"
    and r: "snd (go env config) = snd (run_steps env config active)" by blast
  from act[OF p] have a: "active = a" .
  from run_steps_invoked(1)[of env config active] run_steps_invoked(2)[of env config active]
  show ?thesis unfolding i r a by blast
qed

lemma set_filter_Collect: "set (filter P xs) \<subseteq> Collect P"
  by auto

lemma SetEnv_not_Run: "is_SetEnv e \<Longrightarrow> \<not> is_Run e"
  by (cases e) simp_all

lemma prepare_explicit:
  assumes "getpath config [''main'', ''steps''] = Inr (Str s)" and "s \<noteq> ''all''"
    and "prepare config = (sets, Inr active)"
  shows "active = str_split CHR '','' s"
  using prepare_active[OF assms(3)] assms(1,2) by (simp add: active_steps_def del: getpath.simps)

lemma concat_str_split: "concat (str_split sep s) = filter (\<lambda>c. c \<noteq> sep) s"
  by (induction s) (auto split: list.splits)

lemma str_split_no_sep: "t \<in> set (str_split sep s) \<Longrightarrow> sep \<notin> set t"
  by (induction s arbitrary: t) (auto split: list.splits if_splits)

text \<open>
  Claim C9. The selection is split at commas and nothing else: the tokens of
  \<^verbatim>\<open>download, data_check\<close> are \<^verbatim>\<open>download\<close> and \<^verbatim>\<open> data_check\<close> with its
  leading space, the tokens of any string are its characters other than the comma, and
  \<^verbatim>\<open>All\<close> is a list of one token. A step is invoked only if its exact name is a
  token, so with \<^verbatim>\<open>download, data_check\<close> the step \<^verbatim>\<open>data_check\<close> is not invoked, and
  with \<^verbatim>\<open>All\<close> no step is.
\<close>

theorem selection_is_literal:
  "str_split CHR '','' ''download, data_check'' = [''download'', '' data_check''] \<and>
   active_steps (Str ''All'') = Inr [''All''] \<and>
   concat (str_split CHR '','' s) = filter (\<lambda>c. c \<noteq> CHR '','') s \<and>
   (getpath config [''main'', ''steps''] = Inr (Str s) \<and> s \<noteq> ''all'' \<longrightarrow>
      set (invoked (fst (go env config))) \<subseteq> set (str_split CHR '','' s)) \<and>
   (getpath config [''main'', ''steps''] = Inr (Str ''download, data_check'') \<longrightarrow>
      ''data_check'' \<notin> set (invoked (fst (go env config)))) \<and>
   (getpath config [''main'', ''steps''] = Inr (Str ''All'') \<longrightarrow>
      invoked (fst (go env config)) = [])"
proof -
  have gen: "set (invoked (fst (go env config))) \<subseteq> set (str_split CHR '','' t)"
    if "getpath config [''main'', ''steps''] = Inr (Str t)" "t \<noteq> ''all''" for t
  proof -
    from go_invoked_filter[of config "str_split CHR '','' t" env] prepare_explicit[OF that]
    have "prefix (invoked (fst (go env config)))
           (filter (\<lambda>n. n \<in> set (str_split CHR '','' t))
              (steps_registry @ [''test_regression_model'']))" by blast
    from set_mono_prefix[OF this]
      set_filter_Collect[of "\<lambda>n. n \<in> set (str_split CHR '','' t)"
        "steps_registry @ [''test_regression_model'']"]
    show ?thesis by blast
  qed
  have a: "''data_check'' \<notin> set (invoked (fst (go env config)))"
    if "getpath config [''main'', ''steps''] = Inr (Str ''download, data_check'')"
    using gen[OF that] by auto
  have b: "invoked (fst (go env config)) = []"
    if "getpath config [''main'', ''steps''] = Inr (Str ''All'')"
  proof -
    from go_invoked_filter[of config "str_split CHR '','' ''All''" env] prepare_explicit[OF that]
    have "prefix (invoked (fst (go env config)))
           (filter (\<lambda>n. n \<in> set (str_split CHR '','' ''All''))
              (steps_registry @ [''test_regression_model'']))" by blast
    then show ?thesis by (simp add: steps_registry_def)
  qed
  show ?thesis
    using gen a b by (simp add: active_steps_def concat_str_split)
qed

theorem selection_is_literal_witness:
  "getpath (sample_config ''download, data_check'') [''main'', ''steps''] =
     Inr (Str ''download, data_check'') \<and>
   ''data_check'' \<notin> set (invoked (fst (go (sample_env []) (sample_config ''download, data_check'')))) \<and>
   getpath (sample_config ''All'') [''main'', ''steps''] = Inr (Str ''All'') \<and>
   invoked (fst (go (sample_env []) (sample_config ''All''))) = []"
proof -
  have h1: "getpath (sample_config ''download, data_check'') [''main'', ''steps''] =
     Inr (Str ''download, data_check'')"
    by (simp add: sample_config_def)
  have h2: "getpath (sample_config ''All'') [''main'', ''steps''] = Inr (Str ''All'')"
    by (simp add: sample_config_def)
  from selection_is_literal[of "[]" "sample_config ''download, data_check''" "sample_env []"] h1
  have "''data_check'' \<notin> set (invoked (fst (go (sample_env []) (sample_config ''download, data_check''))))"
    by blast
  moreover from selection_is_literal[of "[]" "sample_config ''All''" "sample_env []"] h2
  have "invoked (fst (go (sample_env []) (sample_config ''All''))) = []"
    by blast
  ultimately show ?thesis using h1 h2 by blast
qed

lemma seq_run_set: "set (fst (seq_run bs)) \<subseteq> (\<Union>b\<in>set bs. set (fst b))"
  by (induction bs) (auto simp: seq_run_Cons split: option.splits)

lemma run_steps_from_table:
  "e \<in> set (fst (run_steps env config active)) \<Longrightarrow>
   \<exists>nb\<in>set (step_table env config). e \<in> set (fst (snd nb))"
proof -
  assume "e \<in> set (fst (run_steps env config active))"
  with seq_run_set[of "blocks env config active"]
  obtain b where b: "b \<in> set (blocks env config active)" "e \<in> set (fst b)"
    unfolding run_steps_def by blast
  then obtain nb where "nb \<in> set (step_table env config)" "b = guarded active nb"
    unfolding blocks_def by auto
  with b show ?thesis by (auto simp: guarded_def skip_def split: if_splits)
qed

lemma go_Run_events:
  assumes "e \<in> set (fst (go env config))" and "is_Run e"
  shows "\<exists>active. e \<in> set (fst (run_steps env config active))"
  using go_cases[of config env]
proof
  assume "\<exists>e. prepare config = (fst (go env config), Inl e) \<and> snd (go env config) = Some e"
  then obtain x where "prepare config = (fst (go env config), Inl x)" by blast
  with prepare_events[of config] have "list_all is_SetEnv (fst (go env config))" by simp
  with assms show ?thesis by (auto simp: list_all_iff dest: SetEnv_not_Run)
next
  assume "\<exists>sets active. prepare config = (sets, Inr active) \<and>
      go env config =
        (sets @ [MkDir (mkdtemp env)] @ fst (run_steps env config active) @ [RmTree (mkdtemp env)],
         snd (run_steps env config active))"
  then obtain sets active where p: "prepare config = (sets, Inr active)"
    and g: "go env config =
        (sets @ [MkDir (mkdtemp env)] @ fst (run_steps env config active) @ [RmTree (mkdtemp env)],
         snd (run_steps env config active))" by blast
  from prepare_events[of config] p have "list_all is_SetEnv sets" by simp
  with assms g have "e \<in> set (fst (run_steps env config active))"
    by (auto simp: list_all_iff dest: SetEnv_not_Run)
  then show ?thesis ..
qed

text \<open>
  Claim C10. The steps invoked are among the five of the registry and
  \<^verbatim>\<open>test_regression_model\<close>; every call of the runner is one of the six written in the
  source; removing from the active list the names that are no step changes nothing of
  the run, its result included; and the empty selection string, whose only token is
  empty, runs no step and raises nothing.
\<close>

theorem unknown_names_ignored:
  "set (invoked (fst (go env config))) \<subseteq> set (steps_registry @ [''test_regression_model'']) \<and>
   run_steps env config active =
     run_steps env config
       (filter (\<lambda>n. n \<in> set (steps_registry @ [''test_regression_model''])) active) \<and>
   (\<forall>e\<in>set (fst (go env config)). is_Run e \<longrightarrow>
      (\<exists>nb\<in>set (step_table env config). e \<in> set (fst (snd nb)))) \<and>
   str_split CHR '','' [] = [[]] \<and>
   run_steps env config [[]] = ([], None)"
proof -
  have "set (invoked (fst (go env config))) \<subseteq> set (steps_registry @ [''test_regression_model''])"
    using go_invoked[of config env]
  proof
    assume "\<exists>e. prepare config = (fst (go env config), Inl e) \<and> snd (go env config) = Some e \<and>
      invoked (fst (go env config)) = []"
    then show ?thesis by auto
  next
    assume "\<exists>sets active. prepare config = (sets, Inr active) \<and>
      invoked (fst (go env config)) = invoked (fst (run_steps env config active)) \<and>
      snd (go env config) = snd (run_steps env config active)"
    then obtain active where i: "invoked (fst (go env config)) = invoked (fst (run_steps env config active))"
      by blast
    from set_mono_prefix[OF run_steps_invoked(1)[of env config active]]
      filter_is_subset[of "\<lambda>n. n \<in> set active" "steps_registry @ [''test_regression_model'']"]
    show ?thesis unfolding i by blast
  qed
  moreover have "run_steps env config active =
     run_steps env config
       (filter (\<lambda>n. n \<in> set (steps_registry @ [''test_regression_model''])) active)"
    by (simp add: run_steps_def blocks_def step_table_def guarded_def steps_registry_def)
  moreover have "\<forall>e\<in>set (fst (go env config)). is_Run e \<longrightarrow>
      (\<exists>nb\<in>set (step_table env config). e \<in> set (fst (snd nb)))"
    using go_Run_events run_steps_from_table by blast
  moreover have "run_steps env config [[]] = ([], None)"
    by (simp add: run_steps_def blocks_def step_table_def guarded_def skip_def)
  ultimately show ?thesis by simp
qed

theorem unknown_names_ignored_witness:
  "set (invoked (fst (go (sample_env []) (sample_config ''bogus,download,,Data_Check'')))) \<subseteq>
     set (steps_registry @ [''test_regression_model'']) \<and>
   run_steps (sample_env []) (sample_config ''bogus,download,,Data_Check'')
       [''bogus'', ''download'', [], ''Data_Check''] =
     run_steps (sample_env []) (sample_config ''bogus,download,,Data_Check'') [''download''] \<and>
   go (sample_env []) (sample_config []) =
     ([SetEnv ''WANDB_PROJECT'' ''nyc_airbnb'', SetEnv ''WANDB_RUN_GROUP'' ''development'',
       MkDir ''/tmp/tmpk3x9'', RmTree ''/tmp/tmpk3x9''], None)"
proof -
  have f: "filter (\<lambda>n. n \<in> set (steps_registry @ [''test_regression_model'']))
             [''bogus'', ''download'', [], ''Data_Check''] = [''download'']"
    by (simp add: steps_registry_def)
  have g: "go (sample_env []) (sample_config []) =
     ([SetEnv ''WANDB_PROJECT'' ''nyc_airbnb'', SetEnv ''WANDB_RUN_GROUP'' ''development'',
       MkDir ''/tmp/tmpk3x9'', RmTree ''/tmp/tmpk3x9''], None)"
    by code_simp
  from unknown_names_ignored[of "sample_env []" "sample_config ''bogus,download,,Data_Check''"
      "[''bogus'', ''download'', [], ''Data_Check'']"] g
  show ?thesis unfolding f by blast
qed

section \<open>The temporary directory, the environment and failures\<close>

lemma replay_append: "replay s (xs @ ys) = replay (replay s xs) ys"
  by (simp add: replay_def)

lemma exec_keeps_dirs: "file_event e \<or> is_Run e \<or> is_SetEnv e \<Longrightarrow> dirs (exec s e) = dirs s"
  by (cases e) simp_all

lemma replay_keeps_dirs:
  "list_all (\<lambda>e. file_event e \<or> is_Run e \<or> is_SetEnv e) xs \<Longrightarrow> dirs (replay s xs) = dirs s"
  unfolding replay_def by (induction xs arbitrary: s) (simp_all add: exec_keeps_dirs)

lemma exec_keeps_environ: "\<not> is_SetEnv e \<Longrightarrow> environ (exec s e) = environ s"
  by (cases e) simp_all

lemma replay_keeps_environ:
  "list_all (\<lambda>e. \<not> is_SetEnv e) xs \<Longrightarrow> environ (replay s xs) = environ s"
  unfolding replay_def by (induction xs arbitrary: s) (simp_all add: exec_keeps_environ)

lemma body_event_not_SetEnv: "file_event e \<or> is_Run e \<Longrightarrow> \<not> is_SetEnv e"
  by (cases e) simp_all

lemma list_all_mono': "list_all P xs \<Longrightarrow> (\<And>x. P x \<Longrightarrow> Q x) \<Longrightarrow> list_all Q xs"
  by (induction xs) auto

lemma go_after_prepare:
  assumes "prepare config = (sets, Inr active)"
  shows "go env config =
        (sets @ [MkDir (mkdtemp env)] @ fst (run_steps env config active) @ [RmTree (mkdtemp env)],
         snd (run_steps env config active))"
  using assms by (simp add: go_def)

lemma go_prepare_failed:
  assumes "prepare config = (sets, Inl e)"
  shows "go env config = (sets, Some e)"
  using assms by (simp add: go_def)

text \<open>
  Claim C6. The directory made by \<^verbatim>\<open>tempfile.TemporaryDirectory()\<close>, a name not in use
  before the run, exists in the state in which every step is invoked and in the state
  the step leaves, and it does not exist in the state after the run, whatever the result
  of the run: success, a failed step or a configuration error.
\<close>

theorem temporary_directory_scoped:
  assumes fresh: "mkdtemp env \<notin> dirs s0"
  shows "mkdtemp env \<notin> dirs (replay s0 (fst (go env config))) \<and>
         (\<forall>pre n iv post. fst (go env config) = pre @ Run n iv # post \<longrightarrow>
            mkdtemp env \<in> dirs (replay s0 pre) \<and>
            mkdtemp env \<in> dirs (replay s0 (pre @ [Run n iv])))"
proof (cases "prepare config")
  case (Pair sets r)
  have sets: "list_all is_SetEnv sets" using prepare_events[of config] Pair by simp
  then have keep: "list_all (\<lambda>e. file_event e \<or> is_Run e \<or> is_SetEnv e) sets"
    by (rule list_all_mono') simp
  have noRun: "Run n iv \<notin> set sets" for n iv
    using sets by (auto simp: list_all_iff dest: SetEnv_not_Run)
  show ?thesis
  proof (cases r)
    case (Inl e)
    with Pair have g: "fst (go env config) = sets" by (simp add: go_prepare_failed)
    have "fst (go env config) \<noteq> pre @ Run n iv # post" for pre n iv post
      using noRun[of n iv] unfolding g by auto
    moreover have "mkdtemp env \<notin> dirs (replay s0 (fst (go env config)))"
      unfolding g using replay_keeps_dirs[OF keep] fresh by simp
    ultimately show ?thesis by blast
  next
    case (Inr active)
    let ?t = "mkdtemp env"
    let ?body = "fst (run_steps env config active)"
    from Pair Inr have g: "fst (go env config) = sets @ [MkDir ?t] @ ?body @ [RmTree ?t]"
      by (simp add: go_after_prepare)
    have body: "list_all (\<lambda>e. file_event e \<or> is_Run e \<or> is_SetEnv e) ?body"
      using run_steps_events[of env config active] by (rule list_all_mono') blast
    have final: "?t \<notin> dirs (replay s0 (fst (go env config)))"
      unfolding g by (simp add: replay_append) (simp add: replay_def inside_def)
    have during: "?t \<in> dirs (replay s0 pre) \<and> ?t \<in> dirs (replay s0 (pre @ [Run n iv]))"
      if d: "fst (go env config) = pre @ Run n iv # post" for pre n iv post
    proof -
      from d g have "sets @ ([MkDir ?t] @ ?body @ [RmTree ?t]) = pre @ Run n iv # post" by simp
      from append_eq_split[OF this noRun]
      obtain p1 where p1: "pre = sets @ p1" "[MkDir ?t] @ ?body @ [RmTree ?t] = p1 @ Run n iv # post"
        by blast
      from p1(2) have "[MkDir ?t] @ (?body @ [RmTree ?t]) = p1 @ Run n iv # post" by simp
      from append_eq_split[OF this]
      obtain p2 where p2: "p1 = [MkDir ?t] @ p2" "?body @ [RmTree ?t] = p2 @ Run n iv # post"
        by auto
      from p2(2) obtain us where "?body = p2 @ us"
        by (auto simp: append_eq_append_conv2 Cons_eq_append_conv append_eq_Cons_conv)
      with body have "list_all (\<lambda>e. file_event e \<or> is_Run e \<or> is_SetEnv e) p2" by simp
      then have "dirs (replay (exec (replay s0 sets) (MkDir ?t)) p2) =
                 dirs (exec (replay s0 sets) (MkDir ?t))"
        by (rule replay_keeps_dirs)
      then have "?t \<in> dirs (replay s0 pre)"
        unfolding p1(1) p2(1) by (simp add: replay_append) (simp add: replay_def)
      then show ?thesis by (simp add: replay_append) (simp add: replay_def)
    qed
    from final during show ?thesis by blast
  qed
qed

theorem temporary_directory_scoped_witness:
  "mkdtemp (sample_env []) \<notin> dirs empty_os \<and>
   mkdtemp (sample_env []) \<notin> dirs (replay empty_os (fst (go (sample_env []) (sample_config ''all'')))) \<and>
   mkdtemp (sample_env [Plain ''/home/user/project/src/basic_cleaning'']) \<notin>
     dirs (replay empty_os
       (fst (go (sample_env [Plain ''/home/user/project/src/basic_cleaning'']) (sample_config ''all'')))) \<and>
   snd (go (sample_env [Plain ''/home/user/project/src/basic_cleaning'']) (sample_config ''all'')) =
     Some (ExecutionException ''basic_cleaning'')"
proof -
  have h1: "mkdtemp (sample_env []) \<notin> dirs empty_os"
    by (simp add: sample_env_def empty_os_def)
  have h2: "mkdtemp (sample_env [Plain ''/home/user/project/src/basic_cleaning'']) \<notin> dirs empty_os"
    by (simp add: sample_env_def empty_os_def)
  have f: "snd (go (sample_env [Plain ''/home/user/project/src/basic_cleaning'']) (sample_config ''all'')) =
     Some (ExecutionException ''basic_cleaning'')"
    by code_simp
  from temporary_directory_scoped[OF h1, of "sample_config ''all''"]
    temporary_directory_scoped[OF h2, of "sample_config ''all''"] h1 f
  show ?thesis by blast
qed

lemma prepare_both:
  assumes p: "getpath config [''main'', ''project_name''] = Inr (Str p)"
    and g: "getpath config [''main'', ''experiment_name''] = Inr (Str g)"
  shows "fst (prepare config) = [SetEnv ''WANDB_PROJECT'' p, SetEnv ''WANDB_RUN_GROUP'' g]"
  using prepare_cases[of config] p g by auto

lemma prepare_Run:
  assumes "list_ex is_Run (fst (go env config))"
  shows "\<exists>p g. getpath config [''main'', ''project_name''] = Inr (Str p) \<and>
               getpath config [''main'', ''experiment_name''] = Inr (Str g)"
proof -
  have "\<not> list_ex is_Run (fst (go env config))"
    if "prepare config = (sets, Inl e)" for sets e
    using prepare_events[of config] that
    by (auto simp: go_prepare_failed list_all_iff list_ex_iff dest: SetEnv_not_Run)
  with assms prepare_cases[of config] show ?thesis by blast
qed

text \<open>
  Claim C7. When \<^verbatim>\<open>main.project_name\<close> and \<^verbatim>\<open>main.experiment_name\<close> are strings, the
  first two events of the run set \<^verbatim>\<open>WANDB_PROJECT\<close> and \<^verbatim>\<open>WANDB_RUN_GROUP\<close> to them,
  no later event sets an environment variable, and both variables keep these values at
  every later moment of the run. A run in which a step is invoked is such a run, so
  both are set before any step.
\<close>

theorem environment_set_once:
  "(\<forall>p g. getpath config [''main'', ''project_name''] = Inr (Str p) \<and>
          getpath config [''main'', ''experiment_name''] = Inr (Str g) \<longrightarrow>
      (\<exists>rest. fst (go env config) =
                SetEnv ''WANDB_PROJECT'' p # SetEnv ''WANDB_RUN_GROUP'' g # rest \<and>
              list_all (\<lambda>e. \<not> is_SetEnv e) rest \<and>
              (\<forall>pre post. rest = pre @ post \<longrightarrow>
                 environ (replay s0 (SetEnv ''WANDB_PROJECT'' p # SetEnv ''WANDB_RUN_GROUP'' g # pre))
                   ''WANDB_PROJECT'' = Some p \<and>
                 environ (replay s0 (SetEnv ''WANDB_PROJECT'' p # SetEnv ''WANDB_RUN_GROUP'' g # pre))
                   ''WANDB_RUN_GROUP'' = Some g))) \<and>
   (list_ex is_Run (fst (go env config)) \<longrightarrow>
      (\<exists>p g. getpath config [''main'', ''project_name''] = Inr (Str p) \<and>
             getpath config [''main'', ''experiment_name''] = Inr (Str g)))"
proof -
  have one: "\<exists>rest. fst (go env config) =
                SetEnv ''WANDB_PROJECT'' p # SetEnv ''WANDB_RUN_GROUP'' g # rest \<and>
              list_all (\<lambda>e. \<not> is_SetEnv e) rest \<and>
              (\<forall>pre post. rest = pre @ post \<longrightarrow>
                 environ (replay s0 (SetEnv ''WANDB_PROJECT'' p # SetEnv ''WANDB_RUN_GROUP'' g # pre))
                   ''WANDB_PROJECT'' = Some p \<and>
                 environ (replay s0 (SetEnv ''WANDB_PROJECT'' p # SetEnv ''WANDB_RUN_GROUP'' g # pre))
                   ''WANDB_RUN_GROUP'' = Some g)"
    if p: "getpath config [''main'', ''project_name''] = Inr (Str p)"
      and g: "getpath config [''main'', ''experiment_name''] = Inr (Str g)" for p g
  proof -
    let ?sets = "[SetEnv ''WANDB_PROJECT'' p, SetEnv ''WANDB_RUN_GROUP'' g]"
    from prepare_both[OF p g] obtain r where pr: "prepare config = (?sets, r)"
      by (cases "prepare config") simp
    have "\<exists>rest. fst (go env config) = ?sets @ rest \<and> list_all (\<lambda>e. \<not> is_SetEnv e) rest"
    proof (cases r)
      case (Inl e)
      with pr show ?thesis by (simp add: go_prepare_failed)
    next
      case (Inr active)
      have "list_all (\<lambda>e. \<not> is_SetEnv e) (fst (run_steps env config active))"
        using run_steps_events[of env config active]
        by (rule list_all_mono') (rule body_event_not_SetEnv)
      with pr Inr show ?thesis by (simp add: go_after_prepare)
    qed
    then obtain rest where rest: "fst (go env config) = ?sets @ rest"
      "list_all (\<lambda>e. \<not> is_SetEnv e) rest" by blast
    have "environ (replay s0 (?sets @ pre)) ''WANDB_PROJECT'' = Some p \<and>
          environ (replay s0 (?sets @ pre)) ''WANDB_RUN_GROUP'' = Some g"
      if "rest = pre @ post" for pre post
    proof -
      from that rest(2) have "list_all (\<lambda>e. \<not> is_SetEnv e) pre" by simp
      from replay_keeps_environ[OF this] show ?thesis
        by (simp add: replay_append) (simp add: replay_def)
    qed
    with rest show ?thesis by auto
  qed
  from one prepare_Run show ?thesis by blast
qed

theorem environment_set_once_witness:
  "getpath (sample_config ''all'') [''main'', ''project_name''] = Inr (Str ''nyc_airbnb'') \<and>
   getpath (sample_config ''all'') [''main'', ''experiment_name''] = Inr (Str ''development'') \<and>
   list_ex is_Run (fst (go (sample_env []) (sample_config ''all''))) \<and>
   (\<exists>rest. fst (go (sample_env []) (sample_config ''all'')) =
            SetEnv ''WANDB_PROJECT'' ''nyc_airbnb'' # SetEnv ''WANDB_RUN_GROUP'' ''development'' # rest \<and>
          list_all (\<lambda>e. \<not> is_SetEnv e) rest)"
proof -
  have p: "getpath (sample_config ''all'') [''main'', ''project_name''] = Inr (Str ''nyc_airbnb'')"
    by (simp add: sample_config_def)
  have g: "getpath (sample_config ''all'') [''main'', ''experiment_name''] = Inr (Str ''development'')"
    by (simp add: sample_config_def)
  have r: "list_ex is_Run (fst (go (sample_env []) (sample_config ''all'')))"
    by code_simp
  from environment_set_once[of "sample_config ''all''" "sample_env []" empty_os] p g r
  show ?thesis by blast
qed

lemma seq_run_None: "snd (seq_run bs) = None \<Longrightarrow> list_all (\<lambda>b. snd b = None) bs"
  by (induction bs) (auto simp: seq_run_Cons split: option.splits)

lemma blocks_config_error:
  assumes "b \<in> set (blocks env config active)" and "snd b = Some e" and "config_error e"
  shows "invoked (fst b) = []"
proof -
  from blocks_shape[of env config active] assms(1)
  have "b = skip \<or> (\<exists>n. block_of env n b)" by (simp add: list_all_iff)
  then show ?thesis
  proof
    assume "b = skip"
    then show ?thesis by (simp add: skip_def)
  next
    assume "\<exists>n. block_of env n b"
    then obtain n where "block_of env n b" ..
    from block_of_Some[OF this assms(2)] assms(3) show ?thesis by auto
  qed
qed

text \<open>
  Claim C8. No exception is caught. An exception before the temporary directory is the
  result of the run, and no step was invoked. The first block that raises ends the
  run with its exception: the events of the blocks before it stay, the blocks after
  it contribute nothing, and a block that raised on its configuration made no call. A
  call that the runner fails is followed by no other call, and its failure is the
  result of the run. A run without an exception is one in which nothing raised.
\<close>

theorem failure_aborts_run:
  "(\<forall>sets e. prepare config = (sets, Inl e) \<longrightarrow>
      go env config = (sets, Some e) \<and> invoked sets = []) \<and>
   (\<forall>sets active bs1 evs e bs2.
      prepare config = (sets, Inr active) \<and>
      blocks env config active = bs1 @ (evs, Some e) # bs2 \<and>
      list_all (\<lambda>b. snd b = None) bs1 \<longrightarrow>
        go env config =
          (sets @ [MkDir (mkdtemp env)] @ concat (map fst bs1) @ evs @ [RmTree (mkdtemp env)],
           Some e) \<and>
        (config_error e \<longrightarrow> invoked evs = [])) \<and>
   (\<forall>pre n iv post.
      fst (go env config) = pre @ Run n iv # post \<and> \<not> mlflow_run env iv \<longrightarrow>
        snd (go env config) = Some (ExecutionException n) \<and> invoked post = []) \<and>
   (snd (go env config) = None \<longrightarrow>
      (\<exists>sets active. prepare config = (sets, Inr active) \<and>
         list_all (\<lambda>b. snd b = None) (blocks env config active)))"
proof -
  have c1: "go env config = (sets, Some e) \<and> invoked sets = []"
    if "prepare config = (sets, Inl e)" for sets e
    using that prepare_events[of config] by (simp add: go_prepare_failed invoked_SetEnv)
  have c2: "go env config =
          (sets @ [MkDir (mkdtemp env)] @ concat (map fst bs1) @ evs @ [RmTree (mkdtemp env)],
           Some e) \<and>
        (config_error e \<longrightarrow> invoked evs = [])"
    if p: "prepare config = (sets, Inr active)"
      and b: "blocks env config active = bs1 @ (evs, Some e) # bs2"
      and n: "list_all (\<lambda>b. snd b = None) bs1" for sets active bs1 evs e bs2
  proof -
    from seq_run_first_failure[OF n, of evs e bs2] b
    have "run_steps env config active = (concat (map fst bs1) @ evs, Some e)"
      by (simp add: run_steps_def)
    with p have "go env config =
          (sets @ [MkDir (mkdtemp env)] @ concat (map fst bs1) @ evs @ [RmTree (mkdtemp env)],
           Some e)" by (simp add: go_after_prepare)
    moreover have "invoked evs = []" if "config_error e"
      using blocks_config_error[of "(evs, Some e)" env config active e] b that by simp
    ultimately show ?thesis by blast
  qed
  have c3: "snd (go env config) = Some (ExecutionException n) \<and> invoked post = []"
    if d: "fst (go env config) = pre @ Run n iv # post" and f: "\<not> mlflow_run env iv"
    for pre n iv post
  proof (cases "prepare config")
    case (Pair sets r)
    have sets: "list_all is_SetEnv sets" using prepare_events[of config] Pair by simp
    have noRun: "Run n iv \<notin> set sets"
      using sets by (auto simp: list_all_iff dest: SetEnv_not_Run)
    show ?thesis
    proof (cases r)
      case (Inl e)
      with Pair d noRun show ?thesis by (auto simp: go_prepare_failed)
    next
      case (Inr active)
      let ?t = "mkdtemp env"
      let ?body = "fst (run_steps env config active)"
      from Pair Inr have g: "go env config =
          (sets @ [MkDir ?t] @ ?body @ [RmTree ?t], snd (run_steps env config active))"
        by (simp add: go_after_prepare)
      with d have "sets @ ([MkDir ?t] @ ?body @ [RmTree ?t]) = pre @ Run n iv # post" by simp
      from append_eq_split[OF this noRun]
      obtain p1 where p1: "[MkDir ?t] @ (?body @ [RmTree ?t]) = p1 @ Run n iv # post"
        by auto
      from append_eq_split[OF this]
      obtain p2 where p2: "?body @ [RmTree ?t] = p2 @ Run n iv # post"
        by auto
      then obtain us where us: "?body = p2 @ Run n iv # us" "post = us @ [RmTree ?t]"
        by (auto simp: append_eq_append_conv2 Cons_eq_append_conv append_eq_Cons_conv)
      from seq_run_failed_call[OF blocks_shape[of env config active], of p2 n iv us] us(1) f
      have "snd (run_steps env config active) = Some (ExecutionException n) \<and> invoked us = []"
        by (simp add: run_steps_def)
      with g us(2) show ?thesis by (simp add: invoked_append)
    qed
  qed
  have c4: "\<exists>sets active. prepare config = (sets, Inr active) \<and>
         list_all (\<lambda>b. snd b = None) (blocks env config active)"
    if ok: "snd (go env config) = None"
  proof (cases "prepare config")
    case (Pair sets r)
    show ?thesis
    proof (cases r)
      case (Inl e)
      with Pair ok show ?thesis by (simp add: go_prepare_failed)
    next
      case (Inr active)
      with Pair ok have "snd (seq_run (blocks env config active)) = None"
        by (simp add: go_after_prepare run_steps_def)
      from seq_run_None[OF this] Pair Inr show ?thesis by blast
    qed
  qed
  from c1 c2 c3 c4 show ?thesis by blast
qed

theorem failure_aborts_run_witness:
  "go (sample_env []) (Dict []) = ([], Some (KeyError ''main'')) \<and>
   snd (go (sample_env []) (without ''data_check'' (sample_config ''all''))) =
     Some (KeyError ''data_check'') \<and>
   invoked (fst (go (sample_env []) (without ''data_check'' (sample_config ''all'')))) =
     [''download'', ''basic_cleaning''] \<and>
   snd (go (sample_env [Plain ''/home/user/project/src/basic_cleaning'']) (sample_config ''all'')) =
     Some (ExecutionException ''basic_cleaning'') \<and>
   invoked (fst (go (sample_env [Plain ''/home/user/project/src/basic_cleaning''])
     (sample_config ''all''))) = [''download'', ''basic_cleaning'']"
proof -
  let ?E = "sample_env []"
  let ?C = "without ''data_check'' (sample_config ''all'')"
  let ?F = "sample_env [Plain ''/home/user/project/src/basic_cleaning'']"
  let ?D = "sample_config ''all''"
  let ?iv = "\<lparr>uri = Plain ''/home/user/project/src/basic_cleaning'', entry_point = ''main'',
              version = None,
              parameters = [(''input_artifact'', Str ''sample.csv:latest''),
                            (''output_artifact'', Str ''clean_sample.csv''),
                            (''output_type'', Str ''clean_sample''),
                            (''output_description'', Str ''Cleaned''),
                            (''min_price'', Num 10), (''max_price'', Num 350)]\<rparr>"
  have p0: "prepare (Dict []) = ([], Inl (KeyError ''main''))"
    by (simp add: prepare_def)
  have p1: "prepare ?C = ([SetEnv ''WANDB_PROJECT'' ''nyc_airbnb'',
                          SetEnv ''WANDB_RUN_GROUP'' ''development''], Inr steps_registry)"
    by code_simp
  have b1: "blocks ?E ?C steps_registry =
      take 2 (blocks ?E ?C steps_registry) @ ([], Some (KeyError ''data_check'')) #
      drop 3 (blocks ?E ?C steps_registry)"
    by code_simp
  have n1: "list_all (\<lambda>b. snd b = None) (take 2 (blocks ?E ?C steps_registry))"
    by code_simp
  have d2: "fst (go ?F ?D) = take 4 (fst (go ?F ?D)) @ Run ''basic_cleaning'' ?iv # drop 5 (fst (go ?F ?D))"
    by code_simp
  have f2: "\<not> mlflow_run ?F ?iv"
    by (simp add: sample_env_def)
  have i1: "invoked (fst (go ?E ?C)) = [''download'', ''basic_cleaning'']"
    by code_simp
  have i2: "invoked (fst (go ?F ?D)) = [''download'', ''basic_cleaning'']"
    by code_simp
  note t = failure_aborts_run
  from t[of "Dict []" ?E] p0 have "go ?E (Dict []) = ([], Some (KeyError ''main''))"
    by blast
  moreover from t[of ?C ?E] p1 b1 n1
  have "go ?E ?C =
      ([SetEnv ''WANDB_PROJECT'' ''nyc_airbnb'', SetEnv ''WANDB_RUN_GROUP'' ''development''] @
       [MkDir (mkdtemp ?E)] @ concat (map fst (take 2 (blocks ?E ?C steps_registry))) @ [] @
       [RmTree (mkdtemp ?E)], Some (KeyError ''data_check''))"
    by blast
  then have "snd (go ?E ?C) = Some (KeyError ''data_check'')" by simp
  moreover from t[of ?D ?F] d2 f2
  have "snd (go ?F ?D) = Some (ExecutionException ''basic_cleaning'')"
    by blast
  ultimately show ?thesis using i1 i2 by blast
qed

text \<open>
  Claim C4, on a run of \<^verbatim>\<open>train_random_forest\<close> alone, from the working directory
  \<^verbatim>\<open>/home/user/project/outputs\<close> with the temporary directory \<^verbatim>\<open>/tmp/tmpk3x9\<close>:
  the hyperparameters are written to \<^verbatim>\<open>rf_config.json\<close> in the working directory,
  not inside the temporary directory; the step receives that path as \<^verbatim>\<open>rf_config\<close>;
  and after the run the file is still there while the temporary directory is gone.
\<close>

theorem rf_config_written_outside_tmp_dir:
  "go (sample_env []) (sample_config ''train_random_forest'') =
     ([SetEnv ''WANDB_PROJECT'' ''nyc_airbnb'',
       SetEnv ''WANDB_RUN_GROUP'' ''development'',
       MkDir ''/tmp/tmpk3x9'',
       OpenW ''/home/user/project/outputs/rf_config.json'',
       Dump ''/home/user/project/outputs/rf_config.json''
         [(''n_estimators'', Num 100), (''max_depth'', Num 10)],
       Run ''train_random_forest''
         \<lparr>uri = Plain ''/home/user/project/src/train_random_forest'',
          entry_point = ''main'', version = None,
          parameters = [(''trainval_artifact'', Str ''trainval_data.csv:latest''),
                        (''val_size'', Num 2),
                        (''random_seed'', Num 42),
                        (''stratify_by'', Str ''neighbourhood_group''),
                        (''rf_config'', Str ''/home/user/project/outputs/rf_config.json''),
                        (''max_tfidf_features'', Num 5),
                        (''output_artifact'', Str ''random_forest_export'')]\<rparr>,
       RmTree ''/tmp/tmpk3x9''], None) \<and>
   \<not> inside ''/tmp/tmpk3x9'' ''/home/user/project/outputs/rf_config.json'' \<and>
   files (replay empty_os (fst (go (sample_env []) (sample_config ''train_random_forest''))))
     ''/home/user/project/outputs/rf_config.json'' =
     Some (Json [(''n_estimators'', Num 100), (''max_depth'', Num 10)]) \<and>
   ''/tmp/tmpk3x9'' \<notin>
     dirs (replay empty_os (fst (go (sample_env []) (sample_config ''train_random_forest''))))"
proof -
  have g: "go (sample_env []) (sample_config ''train_random_forest'') =
     ([SetEnv ''WANDB_PROJECT'' ''nyc_airbnb'',
       SetEnv ''WANDB_RUN_GROUP'' ''development'',
       MkDir ''/tmp/tmpk3x9'',
       OpenW ''/home/user/project/outputs/rf_config.json'',
       Dump ''/home/user/project/outputs/rf_config.json''
         [(''n_estimators'', Num 100), (''max_depth'', Num 10)],
       Run ''train_random_forest''
         \<lparr>uri = Plain ''/home/user/project/src/train_random_forest'',
          entry_point = ''main'', version = None,
          parameters = [(''trainval_artifact'', Str ''trainval_data.csv:latest''),
                        (''val_size'', Num 2),
                        (''random_seed'', Num 42),
                        (''stratify_by'', Str ''neighbourhood_group''),
                        (''rf_config'', Str ''/home/user/project/outputs/rf_config.json''),
                        (''max_tfidf_features'', Num 5),
                        (''output_artifact'', Str ''random_forest_export'')]\<rparr>,
       RmTree ''/tmp/tmpk3x9''], None)"
    by code_simp
  have i: "\<not> inside ''/tmp/tmpk3x9'' ''/home/user/project/outputs/rf_config.json''"
    by (simp add: inside_def)
  show ?thesis
    unfolding g using i by (simp add: replay_def empty_os_def inside_def)
qed

section \<open>The hyperparameter file\<close>












end
